theory Spec2Isabelle
  imports Main "HOL-Library.Multiset"
begin

section \<open>Data model of \<^verbatim>\<open>src/main.go\<close>\<close>

text \<open>
  The struct \<^verbatim>\<open>Items\<close> (one question of the search API). Go's \<^verbatim>\<open>int\<close> fields are
  only compared, never computed with, so they are taken as \<open>int\<close>.
\<close>

record Items =
  IsAnswered :: bool
  ViewCount :: int
  CreationDate :: int
  QuestionId :: int
  Link :: string

text \<open>
  The struct \<^verbatim>\<open>QuestionResponse\<close>. The field \<^verbatim>\<open>Items\<close> has the Go type
  \<^verbatim>\<open>[]*Items\<close>: an element is a pointer, and the JSON decoder stores the nil pointer for a
  JSON \<^verbatim>\<open>null\<close>. A pointer is modelled as an option, \<open>None\<close> being nil.
\<close>

record QuestionResponse =
  Items :: "Items option list"
  HasMore :: bool
  QuotaMax :: int
  QuotaRemaining :: int

text \<open>
  The error values that \<^verbatim>\<open>Do\<close> returns, one for each \<^verbatim>\<open>return err\<close> that can be taken:
  line 57 (the rate limiter), line 67 (\<^verbatim>\<open>c.client.Do\<close>), line 74 (\<^verbatim>\<open>gzip.NewReader\<close>) and
  line 81 (the JSON decoder). The last two are the two ways a body fails to decode.
  The \<^verbatim>\<open>return err\<close> of line 62 is not modelled: \<^verbatim>\<open>http.NewRequest\<close> fails only on a
  method or URL that does not parse, and both are constants of the program.
\<close>

datatype error = RateLimitCancelled | TransportError | GzipError | JSONError

text \<open>
  A Go call either returns or panics. A panic is not an error value: nothing in the
  program recovers from it.
\<close>

datatype 'a outcome = Returns 'a | Panics

subsection \<open>The network\<close>

text \<open>
  What \<^verbatim>\<open>gzip.NewReader\<close> and the JSON decoder make of a response body: the body is not a
  gzip stream, or it is a gzip stream that does not decode into a \<^verbatim>\<open>QuestionResponse\<close>, or
  it decodes.
\<close>

datatype body = NotGzip | NotJSON | JSON QuestionResponse

record Response =
  StatusCode :: int
  Body :: body

text \<open>
  \<^verbatim>\<open>c.client.Do(req)\<close> returns an error when the round trip itself fails, and a response
  otherwise, whatever the status of the response.
\<close>

datatype round_trip = Failed | Replied Response

text \<open>
  Within one run the URL and every query parameter but \<^verbatim>\<open>page\<close> stay the same
  (\<^verbatim>\<open>request\<close> writes \<^verbatim>\<open>params["page"]\<close> only), so the behaviour of the HTTP client is a
  function of the page number that is asked for. The page number is a Go \<^verbatim>\<open>int\<close> of 64
  bits that counts up from 1 by one for each nested call; it is modelled as an unbounded
  \<open>int\<close>.
\<close>

type_synonym http_client = "int \<Rightarrow> round_trip"

subsection \<open>The rate limiter\<close>

record Limiter =
  every_seconds :: nat
  burst :: nat

definition NewLimiter :: "nat \<Rightarrow> nat \<Rightarrow> Limiter" where
  "NewLimiter r b = \<lparr>every_seconds = r, burst = b\<rparr>"

text \<open>
  A context carries a cancellation signal. \<^verbatim>\<open>context.Background()\<close> is the context that is
  never cancelled; the other constructor stands for a context whose signal does
  (\<open>True\<close>) or does not (\<open>False\<close>) fire while a caller waits.
\<close>

datatype Context = Background | WithCancel bool

fun fires :: "Context \<Rightarrow> bool" where
  "fires Background = False"
| "fires (WithCancel b) = b"

text \<open>
  Modelled from the spec: \<^verbatim>\<open>rate.Limiter.Wait\<close> and the \<^verbatim>\<open>context\<close> package are library
  code that is not part of the sources. The specification (4.1) gives the contract
  \<^verbatim>\<open>acquire(cancellationSignal) -> success | Cancelled\<close>: the call blocks until a token is
  available or the cancellation signal fires, in which case it fails with \<^verbatim>\<open>Cancelled\<close>.
  Time is not modelled, so the call returns \<open>None\<close> (Go's nil error) unless the signal
  fires.
\<close>

definition Wait :: "Limiter \<Rightarrow> Context \<Rightarrow> error option" where
  "Wait lim ctx = (if fires ctx then Some RateLimitCancelled else None)"

record RLHTTPClient =
  client :: http_client
  Ratelimiter :: Limiter

text \<open>
  \<^verbatim>\<open>NewClient\<close> (lines 110-117). \<^verbatim>\<open>http.DefaultClient\<close> is the outside world; it is the
  first argument here.
\<close>

definition NewClient :: "http_client \<Rightarrow> Limiter \<Rightarrow> RLHTTPClient" where
  "NewClient net rl = \<lparr>client = net, Ratelimiter = rl\<rparr>"

section \<open>\<^verbatim>\<open>sort.Slice\<close>\<close>

text \<open>
  \<^verbatim>\<open>sort.Slice\<close> is library code. Its contract: the slice is permuted so that the
  comparison function never holds between a later and an earlier element; the order of
  elements that compare equal is not fixed. For the comparison of line 95 this is a
  permutation in which the view counts never increase.
\<close>

definition sorts_by_views :: "(Items list \<Rightarrow> Items list) \<Rightarrow> bool" where
  "sorts_by_views srt \<longleftrightarrow>
     (\<forall>xs. mset (srt xs) = mset xs \<and> sorted_wrt (\<lambda>a b. ViewCount a \<ge> ViewCount b) (srt xs))"

text \<open>
  One function with this contract, for running the program on concrete inputs: the
  insertion sort that \<^verbatim>\<open>sort.Slice\<close> uses for a slice of at most 12 elements. Each element
  in turn is swapped with its left neighbour as long as its view count is greater.
  \<open>sink x front\<close> takes the part that is sorted already with its last element first.
\<close>

fun sink :: "Items \<Rightarrow> Items list \<Rightarrow> Items list" where
  "sink x [] = [x]"
| "sink x (y # ys) = (if ViewCount x > ViewCount y then y # sink x ys else x # y # ys)"

definition insertionSort :: "Items list \<Rightarrow> Items list" where
  "insertionSort xs = rev (foldl (\<lambda>front x. sink x front) [] xs)"

section \<open>\<^verbatim>\<open>RLHTTPClient.Do\<close>\<close>

text \<open>
  The state that a run changes. \<open>top5\<close> is the slice behind the pointer \<^verbatim>\<open>top5\<close>.
  The other fields record what the run does: \<open>requests\<close> lists the pages for which
  \<^verbatim>\<open>c.client.Do(req)\<close> was called, in order; \<open>frames\<close> counts the activations of \<^verbatim>\<open>Do\<close>
  that are on the call stack, and \<open>peak\<close> is the largest value \<open>frames\<close> has had.
\<close>

record run_state =
  top5 :: "Items list"
  requests :: "int list"
  frames :: nat
  peak :: nat

definition enter :: "run_state \<Rightarrow> run_state" where
  "enter s = s\<lparr>frames := frames s + 1, peak := max (peak s) (frames s + 1)\<rparr>"

definition leave :: "run_state \<Rightarrow> run_state" where
  "leave s = s\<lparr>frames := frames s - 1\<rparr>"

text \<open>
  Lines 60-82: one round trip and the decoding of its body. The status code of the
  response is never read.
\<close>

definition fetch :: "RLHTTPClient \<Rightarrow> int \<Rightarrow> error + QuestionResponse" where
  "fetch c page =
     (case client c page of
        Failed \<Rightarrow> Inl TransportError
      | Replied resp \<Rightarrow>
          (case Body resp of
             NotGzip \<Rightarrow> Inl GzipError
           | NotJSON \<Rightarrow> Inl JSONError
           | JSON qr \<Rightarrow> Inr qr))"

text \<open>
  Lines 84-90: the loop over \<^verbatim>\<open>qr.Items\<close> with the accumulator \<^verbatim>\<open>items\<close>. Reading
  \<^verbatim>\<open>item.IsAnswered\<close> through a nil pointer panics.
\<close>

fun unanswered :: "Items option list \<Rightarrow> Items list \<Rightarrow> Items list outcome" where
  "unanswered [] items = Returns items"
| "unanswered (None # rest) items = Panics"
| "unanswered (Some item # rest) items =
     unanswered rest (if \<not> IsAnswered item then items @ [item] else items)"

text \<open>
  Lines 92-100. \<open>srt\<close> stands for the call of \<^verbatim>\<open>sort.Slice\<close> with the comparison
  \<^verbatim>\<open>items[i].ViewCount > items[j].ViewCount\<close>; it sorts in place, so \<^verbatim>\<open>len(items)\<close> is the
  length of the concatenation. When that length is at most 5, \<^verbatim>\<open>*top5\<close> is not assigned.
\<close>

definition merge :: "(Items list \<Rightarrow> Items list) \<Rightarrow> Items list \<Rightarrow> Items list \<Rightarrow> Items list" where
  "merge srt filtered old =
     (let items = filtered @ old;
          sorted_items = srt items
      in if length items > 5 then take 5 sorted_items else old)"

text \<open>
  \<^verbatim>\<open>Do\<close> calls itself for the next page (line 103), so it need not return: the result
  \<open>None\<close> is a run that goes on for ever. The call of line 103 is made inside the
  activation of the caller, which is left only when the inner call has returned (Go
  does not reuse the frame of a call in return position, and the calls deferred in lines
  70 and 77 are still to run). The stack is taken to have room for every activation.
\<close>

partial_function (option) Do ::
  "(Items list \<Rightarrow> Items list) \<Rightarrow> RLHTTPClient \<Rightarrow> run_state \<Rightarrow> int
     \<Rightarrow> (run_state \<times> error option) outcome option"
where [code]:
  "Do srt c s page =
     (let s = enter s;
          ctx = Background
      in case Wait (Ratelimiter c) ctx of
           Some err \<Rightarrow> Some (Returns (leave s, Some err))
         | None \<Rightarrow>
             (let s = s\<lparr>requests := requests s @ [page]\<rparr>
              in case fetch c page of
                   Inl err \<Rightarrow> Some (Returns (leave s, Some err))
                 | Inr qr \<Rightarrow>
                     (case unanswered (Items qr) [] of
                        Panics \<Rightarrow> Some Panics
                      | Returns items \<Rightarrow>
                          (let s = s\<lparr>top5 := merge srt items (top5 s)\<rparr>
                           in if HasMore qr
                              then Option.bind (Do srt c s (page + 1))
                                     (\<lambda>r. Some (case r of
                                                  Panics \<Rightarrow> Panics
                                                | Returns (s', err) \<Rightarrow> Returns (leave s', err)))
                              else Some (Returns (leave s, None))))))"

section \<open>\<^verbatim>\<open>GetTop5Questions\<close>\<close>

definition start :: run_state where
  "start = \<lparr>top5 = [], requests = [], frames = 0, peak = 0\<rparr>"

text \<open>
  Lines 120-145. The arguments \<^verbatim>\<open>inTitle\<close> and \<^verbatim>\<open>tagged\<close> only go into the query
  parameters, which are part of what \<open>net\<close> answers to. \<^verbatim>\<open>json.Marshal\<close> writes the slice as
  a JSON array of its elements in order and does not fail on this type; the result is
  given as the slice itself.
\<close>

definition GetTop5Questions ::
  "(Items list \<Rightarrow> Items list) \<Rightarrow> http_client \<Rightarrow> (error + Items list) outcome option"
where
  "GetTop5Questions srt net =
     (let rl = NewLimiter 1 30;
          c = NewClient net rl;
          page = 1
      in case Do srt c start page of
           None \<Rightarrow> None
         | Some Panics \<Rightarrow> Some Panics
         | Some (Returns (s, Some err)) \<Rightarrow> Some (Returns (Inl err))
         | Some (Returns (s, None)) \<Rightarrow> Some (Returns (Inr (top5 s))))"

section \<open>Inputs for running the program\<close>

text \<open>
  A question that is not answered, and one that is, with a given view count; a response
  with a given status whose body decodes to the given items and \<^verbatim>\<open>has_more\<close> flag.
\<close>

definition question :: "int \<Rightarrow> Items" where
  "question v =
     \<lparr>IsAnswered = False, ViewCount = v, CreationDate = 0, QuestionId = v, Link = ''''\<rparr>"

definition answered :: "int \<Rightarrow> Items" where
  "answered v =
     \<lparr>IsAnswered = True, ViewCount = v, CreationDate = 0, QuestionId = v, Link = ''''\<rparr>"

definition reply :: "int \<Rightarrow> Items list \<Rightarrow> bool \<Rightarrow> round_trip" where
  "reply status xs hm =
     Replied \<lparr>StatusCode = status,
              Body = JSON \<lparr>Items = map Some xs, HasMore = hm,
                           QuotaMax = 300, QuotaRemaining = 299\<rparr>\<rparr>"

text \<open>One page of three unanswered questions.\<close>

definition single_page :: http_client where
  "single_page p = (if p = 1 then reply 200 (map question [1, 2, 3]) False else Failed)"

text \<open>Two pages of unanswered questions.\<close>

definition two_pages :: http_client where
  "two_pages p =
     (if p = 1 then reply 200 (map question [10, 50, 5, 20, 90, 3, 40]) True
      else if p = 2 then reply 200 (map question [200, 1]) False
      else Failed)"

text \<open>The same two pages with answered questions among the others.\<close>

definition mixed_pages :: http_client where
  "mixed_pages p =
     (if p = 1 then reply 200 [question 10, answered 999, question 50, question 5,
                               question 20, answered 70, question 90, question 3,
                               question 40] True
      else if p = 2 then reply 200 [answered 500, question 200, question 1] False
      else Failed)"

text \<open>The round trip for the second page fails.\<close>

definition second_page_fails :: http_client where
  "second_page_fails p =
     (if p = 1 then reply 200 (map question [10, 50, 5, 20, 90, 3, 40]) True else Failed)"

text \<open>
  The server answers with status 400 and a gzip body of JSON that has no \<^verbatim>\<open>items\<close> and no
  \<^verbatim>\<open>has_more\<close>; the decoder leaves the fields it does not find at their zero values.
\<close>

definition bad_request :: http_client where
  "bad_request p =
     Replied \<lparr>StatusCode = 400,
              Body = JSON \<lparr>Items = [], HasMore = False, QuotaMax = 0, QuotaRemaining = 0\<rparr>\<rparr>"

text \<open>Status 503 with a body that is not gzip, as a proxy would send.\<close>

definition unavailable :: http_client where
  "unavailable p = Replied \<lparr>StatusCode = 503, Body = NotGzip\<rparr>"

text \<open>Forty pages of one unanswered question each.\<close>

definition forty_pages :: http_client where
  "forty_pages p = reply 200 [question p] (p < 40)"

text \<open>The client that \<^verbatim>\<open>GetTop5Questions\<close> builds.\<close>

definition the_client :: "http_client \<Rightarrow> RLHTTPClient" where
  "the_client net = NewClient net (NewLimiter 1 30)"

section \<open>Notions for the proofs\<close>

text \<open>
  What \<open>k\<close> callers make of the result of the call they wait for: each passes it on and
  is left.
\<close>

definition unwind ::
  "nat \<Rightarrow> (run_state \<times> error option) outcome option
     \<Rightarrow> (run_state \<times> error option) outcome option"
where
  "unwind k r =
     (case r of
        None \<Rightarrow> None
      | Some Panics \<Rightarrow> Some Panics
      | Some (Returns (s, err)) \<Rightarrow> Some (Returns ((leave ^^ k) s, err)))"

text \<open>The order of the result: the view counts never increase.\<close>

abbreviation (input) desc :: "Items list \<Rightarrow> bool" where
  "desc \<equiv> sorted_wrt (\<lambda>a b. ViewCount a \<ge> ViewCount b)"

section \<open>Sorting and merging\<close>

lemma unanswered_eq:
  "unanswered its acc =
     (if None \<in> set its then Panics
      else Returns (acc @ filter (\<lambda>i. \<not> IsAnswered i) (map the its)))"
proof (induction its arbitrary: acc)
  case Nil
  show ?case by simp
next
  case (Cons it rest)
  show ?case
  proof (cases it)
    case None
    then show ?thesis by simp
  next
    case (Some item)
    then show ?thesis using Cons.IH by auto
  qed
qed

lemma mset_sink: "mset (sink x ys) = add_mset x (mset ys)"
  by (induction ys) auto

lemma set_sink: "set (sink x ys) = insert x (set ys)"
  by (induction ys) auto

lemma sorted_sink:
  "sorted_wrt (\<lambda>a b. ViewCount a \<le> ViewCount b) ys \<Longrightarrow>
   sorted_wrt (\<lambda>a b. ViewCount a \<le> ViewCount b) (sink x ys)"
  by (induction ys) (auto simp: set_sink)

lemma foldl_sink:
  "mset (foldl (\<lambda>front x. sink x front) acc xs) = mset acc + mset xs \<and>
   (sorted_wrt (\<lambda>a b. ViewCount a \<le> ViewCount b) acc \<longrightarrow>
    sorted_wrt (\<lambda>a b. ViewCount a \<le> ViewCount b) (foldl (\<lambda>front x. sink x front) acc xs))"
  by (induction xs arbitrary: acc) (auto simp: mset_sink sorted_sink)

lemma insertionSort_sorts: "sorts_by_views insertionSort"
  unfolding sorts_by_views_def insertionSort_def
  using foldl_sink [of "[]"] by (simp add: sorted_wrt_rev)

lemma srt_length: "sorts_by_views srt \<Longrightarrow> length (srt xs) = length xs"
  unfolding sorts_by_views_def by (metis size_mset)

lemma srt_set: "sorts_by_views srt \<Longrightarrow> set (srt xs) = set xs"
  unfolding sorts_by_views_def by (metis set_mset_mset)

lemma srt_desc: "sorts_by_views srt \<Longrightarrow> desc (srt xs)"
  unfolding sorts_by_views_def by blast

lemma desc_take: "desc xs \<Longrightarrow> desc (take k xs)"
  by (metis append_take_drop_id sorted_wrt_append)

lemma srt_views:
  assumes "sorts_by_views srt"
  shows "map ViewCount (srt xs) = rev (sort (map ViewCount xs))"
proof -
  have m: "mset (map ViewCount (srt xs)) = mset (map ViewCount xs)"
    using assms unfolding sorts_by_views_def by (metis mset_map)
  have "sorted_wrt (\<lambda>a b. a \<ge> b) (map ViewCount (srt xs))"
    using srt_desc [OF assms, of xs] by (simp add: sorted_wrt_map)
  then have "sorted (rev (map ViewCount (srt xs)))"
    by (simp add: sorted_wrt_rev)
  moreover have "mset (rev (map ViewCount (srt xs))) = mset (map ViewCount xs)"
    using m by simp
  ultimately have "sort (map ViewCount xs) = rev (map ViewCount (srt xs))"
    by (metis properties_for_sort)
  then show ?thesis by simp
qed

lemma merge_small: "length (f @ old) \<le> 5 \<Longrightarrow> merge srt f old = old"
  by (simp add: merge_def)

lemma merge_big:
  "length (f @ old) > 5 \<Longrightarrow> merge srt f old = take 5 (srt (f @ old))"
  by (simp add: merge_def)

lemma merge_length:
  assumes "sorts_by_views srt"
  shows "length (f @ old) > 5 \<Longrightarrow> length (merge srt f old) = 5"
  using srt_length [OF assms, of "f @ old"] by (simp add: merge_def)

lemma merge_desc:
  assumes "sorts_by_views srt" "desc old"
  shows "desc (merge srt f old)"
  using assms srt_desc [OF assms(1), of "f @ old"] by (simp add: merge_def Let_def desc_take)

lemma merge_set:
  assumes "sorts_by_views srt"
  shows "set (merge srt f old) \<subseteq> set f \<union> set old"
  using srt_set [OF assms, of "f @ old"] set_take_subset [of 5 "srt (f @ old)"]
  by (auto simp: merge_def Let_def)

lemma merge_views:
  assumes "sorts_by_views srt"
  shows "map ViewCount (merge srt f old) =
     (if length (f @ old) > 5 then take 5 (rev (sort (map ViewCount (f @ old))))
      else map ViewCount old)"
proof (cases "length (f @ old) > 5")
  case True
  have "map ViewCount (take 5 (srt (f @ old))) = take 5 (map ViewCount (srt (f @ old)))"
    by (simp only: take_map)
  also have "\<dots> = take 5 (rev (sort (map ViewCount (f @ old))))"
    by (simp only: srt_views [OF assms])
  finally show ?thesis using True by (simp only: merge_big if_True)
next
  case False
  then show ?thesis by (simp add: merge_def)
qed

section \<open>One call of \<^verbatim>\<open>Do\<close>, and a run of calls\<close>

lemma Do_fetch_error:
  assumes "fetch c page = Inl e"
  shows "Do srt c s page =
           Some (Returns (leave ((enter s)\<lparr>requests := requests s @ [page]\<rparr>), Some e))"
  by (subst Do.simps) (simp add: assms Wait_def enter_def)

lemma Do_panic:
  assumes "fetch c page = Inr qr" "None \<in> set (Items qr)"
  shows "Do srt c s page = Some Panics"
  by (subst Do.simps) (simp add: assms Wait_def unanswered_eq)

lemma Do_last_page:
  assumes "fetch c page = Inr qr" "None \<notin> set (Items qr)" "\<not> HasMore qr"
  shows "Do srt c s page =
           Some (Returns (leave ((enter s)\<lparr>requests := requests s @ [page],
                   top5 := merge srt (filter (\<lambda>i. \<not> IsAnswered i) (map the (Items qr))) (top5 s)\<rparr>),
                 None))"
  by (subst Do.simps) (simp add: assms Wait_def unanswered_eq enter_def)

lemma Do_next_page:
  assumes "fetch c page = Inr qr" "None \<notin> set (Items qr)" "HasMore qr"
  shows "Do srt c s page =
           Option.bind
             (Do srt c ((enter s)\<lparr>requests := requests s @ [page],
                   top5 := merge srt (filter (\<lambda>i. \<not> IsAnswered i) (map the (Items qr))) (top5 s)\<rparr>)
                (page + 1))
             (\<lambda>r. Some (case r of Panics \<Rightarrow> Panics
                              | Returns (s', err) \<Rightarrow> Returns (leave s', err)))"
  by (subst Do.simps) (simp add: assms Wait_def unanswered_eq enter_def)

lemma Do_returns_shape:
  assumes run: "Do srt c s page = Some y"
  shows "\<exists>n\<ge>page.
           (\<forall>p\<in>{page..<n}. \<exists>qr. fetch c p = Inr qr \<and> None \<notin> set (Items qr) \<and> HasMore qr) \<and>
           (\<forall>qr. fetch c n = Inr qr \<longrightarrow> None \<notin> set (Items qr) \<longrightarrow> \<not> HasMore qr)"
proof (rule Do.raw_induct
    [where P = "\<lambda>srt c s page y. \<exists>n\<ge>page.
           (\<forall>p\<in>{page..<n}. \<exists>qr. fetch c p = Inr qr \<and> None \<notin> set (Items qr) \<and> HasMore qr) \<and>
           (\<forall>qr. fetch c n = Inr qr \<longrightarrow> None \<notin> set (Items qr) \<longrightarrow> \<not> HasMore qr)",
     OF _ run], goal_cases)
  case (1 D srt c s page y)
  show ?case
  proof (cases "\<exists>qr. fetch c page = Inr qr \<and> None \<notin> set (Items qr) \<and> HasMore qr")
    case False
    then have "(\<forall>p\<in>{page..<page}. \<exists>qr. fetch c p = Inr qr \<and> None \<notin> set (Items qr) \<and> HasMore qr) \<and>
           (\<forall>qr. fetch c page = Inr qr \<longrightarrow> None \<notin> set (Items qr) \<longrightarrow> \<not> HasMore qr)"
      by auto
    then show ?thesis by (metis order_refl)
  next
    case True
    then obtain qr where qr: "fetch c page = Inr qr" "None \<notin> set (Items qr)" "HasMore qr"
      by blast
    from 1(2) obtain s1 y1 where "D srt c s1 (page + 1) = Some y1"
      by (auto simp: qr Wait_def unanswered_eq Let_def split: Option.bind_splits)
    from 1(1) [OF this] obtain n where n: "page + 1 \<le> n"
      "\<forall>p\<in>{page + 1..<n}. \<exists>qr. fetch c p = Inr qr \<and> None \<notin> set (Items qr) \<and> HasMore qr"
      "\<forall>qr. fetch c n = Inr qr \<longrightarrow> None \<notin> set (Items qr) \<longrightarrow> \<not> HasMore qr"
      by blast
    have "\<forall>p\<in>{page..<n}. \<exists>qr. fetch c p = Inr qr \<and> None \<notin> set (Items qr) \<and> HasMore qr"
    proof
      fix p assume "p \<in> {page..<n}"
      then have "p = page \<or> p \<in> {page + 1..<n}" by auto
      then show "\<exists>qr. fetch c p = Inr qr \<and> None \<notin> set (Items qr) \<and> HasMore qr"
        using qr n(2) by blast
    qed
    moreover have "page \<le> n" using n(1) by simp
    ultimately show ?thesis using n(3) by blast
  qed
qed

lemma unwind_0: "unwind 0 r = r"
  by (simp add: unwind_def split: option.splits outcome.splits)

lemma unwind_Suc:
  "Option.bind (unwind k r)
     (\<lambda>r. Some (case r of Panics \<Rightarrow> Panics | Returns (s', err) \<Rightarrow> Returns (leave s', err)))
   = unwind (Suc k) r"
  by (simp add: unwind_def split: option.splits outcome.splits)

lemma leave_funpow:
  "top5 ((leave ^^ k) s) = top5 s \<and> requests ((leave ^^ k) s) = requests s \<and>
   peak ((leave ^^ k) s) = peak s \<and> frames ((leave ^^ k) s) = frames s - k"
  by (induction k) (simp_all add: leave_def)

lemma Do_prefix:
  assumes step: "\<And>f old. \<forall>x\<in>set f. \<not> IsAnswered x \<Longrightarrow> I old \<Longrightarrow> I (merge srt f old)"
  shows "page \<le> n \<Longrightarrow>
     \<forall>p\<in>{page..<n}. \<exists>qr. fetch c p = Inr qr \<and> None \<notin> set (Items qr) \<and> HasMore qr \<Longrightarrow>
     I (top5 s) \<Longrightarrow>
     \<exists>s1. requests s1 = requests s @ [page..n - 1] \<and>
          frames s1 = frames s + nat (n - page) \<and>
          peak s1 = (if page = n then peak s else max (peak s) (frames s + nat (n - page))) \<and>
          I (top5 s1) \<and>
          Do srt c s page = unwind (nat (n - page)) (Do srt c s1 n)"
proof (induction "nat (n - page)" arbitrary: page s)
  case 0
  then have "page = n" by simp
  then show ?case using "0.prems"(3) by (auto simp: unwind_0 intro!: exI [of _ s])
next
  case (Suc k)
  then have lt: "page < n" by linarith
  then obtain qr where qr: "fetch c page = Inr qr" "None \<notin> set (Items qr)" "HasMore qr"
    using Suc.prems(2) by force
  let ?f = "filter (\<lambda>i. \<not> IsAnswered i) (map the (Items qr))"
  let ?sa = "(enter s)\<lparr>requests := requests s @ [page], top5 := merge srt ?f (top5 s)\<rparr>"
  have k: "k = nat (n - (page + 1))" using Suc.hyps(2) by linarith
  have le: "page + 1 \<le> n" using lt by simp
  have pre: "\<forall>p\<in>{page + 1..<n}. \<exists>qr. fetch c p = Inr qr \<and> None \<notin> set (Items qr) \<and> HasMore qr"
    using Suc.prems(2) by simp
  have inv: "I (top5 ?sa)"
    using step [of ?f "top5 s"] Suc.prems(3) by simp
  from Suc.hyps(1) [OF k le pre inv] obtain s1 where s1:
    "requests s1 = requests ?sa @ [page + 1..n - 1]"
    "frames s1 = frames ?sa + nat (n - (page + 1))"
    "peak s1 = (if page + 1 = n then peak ?sa
                else max (peak ?sa) (frames ?sa + nat (n - (page + 1))))"
    "I (top5 s1)"
    "Do srt c ?sa (page + 1) = unwind (nat (n - (page + 1))) (Do srt c s1 n)"
    by blast
  have up: "[page..n - 1] = page # [page + 1..n - 1]"
    using lt by (simp add: upto_rec1)
  have r: "requests s1 = requests s @ [page..n - 1]"
    using s1(1) up by simp
  have f: "frames s1 = frames s + nat (n - page)"
    using s1(2) lt by (simp add: enter_def nat_diff_distrib)
  have p: "peak s1 = (if page = n then peak s else max (peak s) (frames s + nat (n - page)))"
    using s1(3) lt by (auto simp: enter_def nat_diff_distrib)
  have "Do srt c s page = unwind (Suc k) (Do srt c s1 n)"
    using Do_next_page [OF qr, of srt s] s1(5) k by (simp only: unwind_Suc)
  then have d: "Do srt c s page = unwind (nat (n - page)) (Do srt c s1 n)"
    using Suc.hyps(2) by simp
  show ?case using r f p s1(4) d by blast
qed

lemma upto_snoc: "page \<le> n \<Longrightarrow> [page..n - 1] @ [n] = [page..n]"
  using upto_rec2 [of page n] by simp

lemma Do_run_ok:
  assumes step: "\<And>f old. \<forall>x\<in>set f. \<not> IsAnswered x \<Longrightarrow> I old \<Longrightarrow> I (merge srt f old)"
    and le: "page \<le> n"
    and pre: "\<forall>p\<in>{page..<n}. \<exists>qr. fetch c p = Inr qr \<and> None \<notin> set (Items qr) \<and> HasMore qr"
    and last: "fetch c n = Inr qr" "None \<notin> set (Items qr)" "\<not> HasMore qr"
    and inv: "I (top5 s)"
  shows "\<exists>s'. Do srt c s page = Some (Returns (s', None)) \<and>
           requests s' = requests s @ [page..n] \<and> frames s' = frames s \<and>
           peak s' = max (peak s) (frames s + nat (n - page) + 1) \<and> I (top5 s')"
proof -
  from Do_prefix [of I srt page n c s, OF step le pre inv] obtain s1 where s1:
    "requests s1 = requests s @ [page..n - 1]"
    "frames s1 = frames s + nat (n - page)"
    "peak s1 = (if page = n then peak s else max (peak s) (frames s + nat (n - page)))"
    "I (top5 s1)"
    "Do srt c s page = unwind (nat (n - page)) (Do srt c s1 n)"
    by blast
  let ?f = "filter (\<lambda>i. \<not> IsAnswered i) (map the (Items qr))"
  let ?t = "leave ((enter s1)\<lparr>requests := requests s1 @ [n], top5 := merge srt ?f (top5 s1)\<rparr>)"
  let ?s' = "(leave ^^ nat (n - page)) ?t"
  have "Do srt c s page = Some (Returns (?s', None))"
    using s1(5) Do_last_page [OF last, of srt s1] by (simp add: unwind_def)
  moreover have "requests ?s' = requests s @ [page..n]"
    using s1(1) upto_snoc [OF le] by (simp add: leave_funpow leave_def)
  moreover have "frames ?s' = frames s"
    using s1(2) by (simp add: leave_funpow leave_def enter_def)
  moreover have "peak ?s' = max (peak s) (frames s + nat (n - page) + 1)"
    using s1(2,3) by (auto simp: leave_funpow leave_def enter_def)
  moreover have "I (top5 ?s')"
    using step [of ?f "top5 s1"] s1(4) by (simp add: leave_funpow leave_def)
  ultimately show ?thesis by blast
qed

lemma Do_run_error:
  assumes step: "\<And>f old. \<forall>x\<in>set f. \<not> IsAnswered x \<Longrightarrow> I old \<Longrightarrow> I (merge srt f old)"
    and le: "page \<le> n"
    and pre: "\<forall>p\<in>{page..<n}. \<exists>qr. fetch c p = Inr qr \<and> None \<notin> set (Items qr) \<and> HasMore qr"
    and last: "fetch c n = Inl e"
    and inv: "I (top5 s)"
  shows "\<exists>s'. Do srt c s page = Some (Returns (s', Some e)) \<and>
           requests s' = requests s @ [page..n] \<and> frames s' = frames s \<and>
           peak s' = max (peak s) (frames s + nat (n - page) + 1) \<and> I (top5 s')"
proof -
  from Do_prefix [of I srt page n c s, OF step le pre inv] obtain s1 where s1:
    "requests s1 = requests s @ [page..n - 1]"
    "frames s1 = frames s + nat (n - page)"
    "peak s1 = (if page = n then peak s else max (peak s) (frames s + nat (n - page)))"
    "I (top5 s1)"
    "Do srt c s page = unwind (nat (n - page)) (Do srt c s1 n)"
    by blast
  let ?t = "leave ((enter s1)\<lparr>requests := requests s1 @ [n]\<rparr>)"
  let ?s' = "(leave ^^ nat (n - page)) ?t"
  have "Do srt c s page = Some (Returns (?s', Some e))"
    using s1(5) Do_fetch_error [OF last, of srt s1] by (simp add: unwind_def)
  moreover have "requests ?s' = requests s @ [page..n]"
    using s1(1) upto_snoc [OF le] by (simp add: leave_funpow leave_def)
  moreover have "frames ?s' = frames s"
    using s1(2) by (simp add: leave_funpow leave_def enter_def)
  moreover have "peak ?s' = max (peak s) (frames s + nat (n - page) + 1)"
    using s1(2,3) by (auto simp: leave_funpow leave_def enter_def)
  moreover have "I (top5 ?s')"
    using s1(4) by (simp add: leave_funpow leave_def enter_def)
  ultimately show ?thesis by blast
qed

lemma Do_run_panic:
  assumes le: "page \<le> n"
    and pre: "\<forall>p\<in>{page..<n}. \<exists>qr. fetch c p = Inr qr \<and> None \<notin> set (Items qr) \<and> HasMore qr"
    and last: "fetch c n = Inr qr" "None \<in> set (Items qr)"
  shows "Do srt c s page = Some Panics"
proof -
  from Do_prefix [of "\<lambda>_. True" srt page n c s, OF _ le pre] obtain s1 where
    "Do srt c s page = unwind (nat (n - page)) (Do srt c s1 n)"
    by blast
  then show ?thesis using Do_panic [OF last, of srt s1] by (simp add: unwind_def)
qed

text \<open>Every run that returns is one of the two above.\<close>

lemma Do_result:
  assumes step: "\<And>f old. \<forall>x\<in>set f. \<not> IsAnswered x \<Longrightarrow> I old \<Longrightarrow> I (merge srt f old)"
    and run: "Do srt c s page = Some (Returns (s', r))"
    and inv: "I (top5 s)"
  shows "\<exists>n\<ge>page.
           (\<forall>p\<in>{page..<n}. \<exists>qr. fetch c p = Inr qr \<and> None \<notin> set (Items qr) \<and> HasMore qr) \<and>
           (case r of
              None \<Rightarrow> (\<exists>qr. fetch c n = Inr qr \<and> None \<notin> set (Items qr) \<and> \<not> HasMore qr)
            | Some e \<Rightarrow> fetch c n = Inl e) \<and>
           requests s' = requests s @ [page..n] \<and> frames s' = frames s \<and>
           peak s' = max (peak s) (frames s + nat (n - page) + 1) \<and> I (top5 s')"
proof -
  from Do_returns_shape [OF run] obtain n where n: "page \<le> n"
    "\<forall>p\<in>{page..<n}. \<exists>qr. fetch c p = Inr qr \<and> None \<notin> set (Items qr) \<and> HasMore qr"
    "\<forall>qr. fetch c n = Inr qr \<longrightarrow> None \<notin> set (Items qr) \<longrightarrow> \<not> HasMore qr"
    by blast
  show ?thesis
  proof (cases "fetch c n")
    case (Inl e)
    from Do_run_error [of I srt page n c e s, OF step n(1,2) Inl inv] run
    show ?thesis using n(1,2) Inl by auto
  next
    case (Inr qr)
    show ?thesis
    proof (cases "None \<in> set (Items qr)")
      case True
      from Do_run_panic [OF n(1,2) Inr True, of srt] run show ?thesis by simp
    next
      case False
      then have nm: "\<not> HasMore qr" using n(3) Inr by blast
      from Do_run_ok [of I srt page n c qr s, OF step n(1,2) Inr False nm inv] run
      show ?thesis using n(1,2) Inr False nm by auto
    qed
  qed
qed

section \<open>The program on the inputs above\<close>

lemma two_pages_run:
  "Do insertionSort (the_client two_pages) start 1 =
     Some (Returns (\<lparr>top5 = map question [200, 90, 50, 40, 20], requests = [1, 2],
                      frames = 0, peak = 2\<rparr>, None))"
  by code_simp

lemma mixed_pages_run:
  "Do insertionSort (the_client mixed_pages) start 1 =
     Some (Returns (\<lparr>top5 = map question [200, 90, 50, 40, 20], requests = [1, 2],
                      frames = 0, peak = 2\<rparr>, None))"
  by code_simp

lemma second_page_fails_run:
  "Do insertionSort (the_client second_page_fails) start 1 =
     Some (Returns (\<lparr>top5 = map question [90, 50, 40, 20, 10], requests = [1, 2],
                      frames = 0, peak = 2\<rparr>, Some TransportError))"
  by code_simp

section \<open>\<^verbatim>\<open>GetTop5Questions\<close> in terms of \<^verbatim>\<open>Do\<close>\<close>

lemma GetTop5Questions_Inr:
  "GetTop5Questions srt net = Some (Returns (Inr r)) \<longleftrightarrow>
     (\<exists>s'. Do srt (the_client net) start 1 = Some (Returns (s', None)) \<and> r = top5 s')"
  by (auto simp: GetTop5Questions_def the_client_def split: option.splits outcome.splits)

lemma GetTop5Questions_Inl:
  "GetTop5Questions srt net = Some (Returns (Inl e)) \<longleftrightarrow>
     (\<exists>s'. Do srt (the_client net) start 1 = Some (Returns (s', Some e)))"
  by (auto simp: GetTop5Questions_def the_client_def split: option.splits outcome.splits)

lemma start_fields: "top5 start = []" "requests start = []" "frames start = 0" "peak start = 0"
  by (simp_all add: start_def)

lemma Do_keeps:
  assumes "\<And>f old. \<forall>x\<in>set f. \<not> IsAnswered x \<Longrightarrow> I old \<Longrightarrow> I (merge srt f old)"
    and "Do srt c s page = Some (Returns (s', r))" and "I (top5 s)"
  shows "I (top5 s')"
  using Do_result [of I srt c s page s' r, OF assms] by blast

lemma fetch_the_client:
  "net page = Replied \<lparr>StatusCode = st, Body = JSON qr\<rparr> \<Longrightarrow> fetch (the_client net) page = Inr qr"
  by (simp add: fetch_def the_client_def NewClient_def)

lemma unanswered_Returns:
  "unanswered its acc = Returns kept \<Longrightarrow>
     None \<notin> set its \<and> kept = acc @ filter (\<lambda>i. \<not> IsAnswered i) (map the its)"
  by (cases "None \<in> set its") (simp_all add: unanswered_eq)

lemma set_kept:
  "None \<notin> set its \<Longrightarrow>
     x \<in> set (filter (\<lambda>i. \<not> IsAnswered i) (map the its)) \<longleftrightarrow> Some x \<in> set its \<and> \<not> IsAnswered x"
  by (induction its) auto

lemma fetch_not_cancelled: "fetch c page \<noteq> Inl RateLimitCancelled"
  by (simp add: fetch_def split: round_trip.splits body.splits)

section \<open>The claims\<close>

text \<open>
  C1. The specification asks for a result of length \<open>min 5 k\<close> where \<open>k\<close> is the number of
  unanswered items of all pages, and for the result \<open>[3, 2, 1]\<close> on one page of three
  unanswered items with the view counts 1, 2, 3. The program returns the empty array on
  that page: the three items are fewer than six, so line 99 is not reached and
  \<^verbatim>\<open>*top5\<close> stays as it was made in line 138.
\<close>

theorem single_page_of_three_is_dropped:
  "GetTop5Questions insertionSort single_page = Some (Returns (Inr []))"
  by code_simp

text \<open>
  C2. Whatever the sort does within its contract: the merge of lines 92-100 leaves
  \<^verbatim>\<open>*top5\<close> as it is when the filtered items of the page and the old \<^verbatim>\<open>*top5\<close> are at most
  5 together (the items of the page are dropped), and makes it 5 long otherwise. So a
  \<^verbatim>\<open>*top5\<close> of length 0 or 5 has length 0 or 5 again after any number of pages, at every
  return of \<^verbatim>\<open>Do\<close>, with or without an error; and the result of \<^verbatim>\<open>GetTop5Questions\<close> has
  length 0 or 5.
\<close>

theorem top5_length_0_or_5:
  assumes "sorts_by_views srt"
  shows "(length (filtered @ old) \<le> 5 \<longrightarrow> merge srt filtered old = old) \<and>
         (length (filtered @ old) > 5 \<longrightarrow> length (merge srt filtered old) = 5) \<and>
         (length (top5 s) \<in> {0, 5} \<longrightarrow> Do srt c s page = Some (Returns (s', r)) \<longrightarrow>
            length (top5 s') \<in> {0, 5}) \<and>
         (GetTop5Questions srt net = Some (Returns (Inr res)) \<longrightarrow> length res \<in> {0, 5})"
proof -
  have step: "length (merge srt f old) \<in> {0, 5}" if "length old \<in> {0, 5}" for f old
    using that merge_length [OF assms, of f old] merge_small [of f old srt]
    by (cases "length (f @ old) > 5") auto
  have run: "length (top5 s') \<in> {0, 5}"
    if "Do srt c s page = Some (Returns (s', r))" "length (top5 s) \<in> {0, 5}" for c s page s' r
    using Do_keeps [of "\<lambda>t. length t \<in> {0, 5}" srt c s page s' r] step that by blast
  have "length res \<in> {0, 5}" if "GetTop5Questions srt net = Some (Returns (Inr res))"
    using that run [of "the_client net" start 1 _ None]
    by (auto simp: GetTop5Questions_Inr start_fields)
  then show ?thesis
    using merge_small [of filtered old srt] merge_length [OF assms, of filtered old]
      run [of c s page s' r]
    by blast
qed

theorem top5_length_0_or_5_witness:
  "sorts_by_views insertionSort \<and>
   length (map question [1, 2, 3] @ []) \<le> 5 \<and>
   merge insertionSort (map question [1, 2, 3]) [] = [] \<and>
   length (map question [200, 1] @ map question [90, 50, 40, 20, 10]) > 5 \<and>
   length (merge insertionSort (map question [200, 1]) (map question [90, 50, 40, 20, 10])) = 5 \<and>
   length (top5 start) \<in> {0, 5} \<and>
   Do insertionSort (the_client second_page_fails) start 1 =
     Some (Returns (\<lparr>top5 = map question [90, 50, 40, 20, 10], requests = [1, 2],
                      frames = 0, peak = 2\<rparr>, Some TransportError)) \<and>
   length (map question [90, 50, 40, 20, 10]) \<in> {0, 5} \<and>
   GetTop5Questions insertionSort single_page = Some (Returns (Inr [])) \<and>
   length ([] :: Items list) \<in> {0, 5}"
proof -
  have a: "length (map question [200, 1] @ map question [90, 50, 40, 20, 10]) > 5" by simp
  have b: "GetTop5Questions insertionSort single_page = Some (Returns (Inr []))" by code_simp
  have c: "length (top5 start) \<in> {0, 5}" by (simp add: start_def)
  note t = top5_length_0_or_5 [OF insertionSort_sorts]
  show ?thesis
    using t [of "map question [1, 2, 3]" "[]"]
      t [of "map question [200, 1]" "map question [90, 50, 40, 20, 10]"]
      t [of _ _ start "the_client second_page_fails" 1]
      insertionSort_sorts a b c second_page_fails_run
    by simp
qed

text \<open>
  C3. Whatever the sort does within its contract, and whatever else the pages hold
  (answered questions, other fields, any status code): when the unanswered items of page
  1 have the view counts \<open>[10, 50, 5, 20, 90, 3, 40]\<close> and \<^verbatim>\<open>has_more\<close> is true, and those of
  page 2 have \<open>[200, 1]\<close> and \<^verbatim>\<open>has_more\<close> is false, \<^verbatim>\<open>GetTop5Questions\<close> returns, without
  an error, five items whose view counts are \<open>[200, 90, 50, 40, 20]\<close> in this order.
\<close>

theorem two_page_scenario:
  assumes srt: "sorts_by_views srt"
    and p1: "net 1 = Replied \<lparr>StatusCode = st1, Body = JSON qr1\<rparr>"
      "None \<notin> set (Items qr1)" "HasMore qr1"
      "map ViewCount (filter (\<lambda>i. \<not> IsAnswered i) (map the (Items qr1))) =
         [10, 50, 5, 20, 90, 3, 40]"
    and p2: "net 2 = Replied \<lparr>StatusCode = st2, Body = JSON qr2\<rparr>"
      "None \<notin> set (Items qr2)" "\<not> HasMore qr2"
      "map ViewCount (filter (\<lambda>i. \<not> IsAnswered i) (map the (Items qr2))) = [200, 1]"
  shows "\<exists>res. GetTop5Questions srt net = Some (Returns (Inr res)) \<and>
               map ViewCount res = [200, 90, 50, 40, 20]"
proof -
  let ?f1 = "filter (\<lambda>i. \<not> IsAnswered i) (map the (Items qr1))"
  let ?f2 = "filter (\<lambda>i. \<not> IsAnswered i) (map the (Items qr2))"
  let ?t1 = "merge srt ?f1 []"
  let ?t2 = "merge srt ?f2 ?t1"
  let ?s1 = "(enter start)\<lparr>requests := requests start @ [1], top5 := merge srt ?f1 (top5 start)\<rparr>"
  have l1: "length ?f1 = 7"
    using arg_cong [OF p1(4), of length] by simp
  have l2: "length ?f2 = 2"
    using arg_cong [OF p2(4), of length] by simp
  have v1: "map ViewCount ?t1 = [90, 50, 40, 20, 10]"
    using merge_views [OF srt, of ?f1 "[]"] l1 p1(4) by simp
  have l3: "length ?t1 = 5"
    using arg_cong [OF v1, of length] by simp
  have big: "length (?f2 @ ?t1) > 5"
    by (simp only: length_append l2 l3)
  have cat: "map ViewCount (?f2 @ ?t1) = [200, 1] @ [90, 50, 40, 20, 10]"
    by (simp only: map_append p2(4) v1)
  have "map ViewCount ?t2 = take 5 (rev (sort (map ViewCount (?f2 @ ?t1))))"
    using merge_views [OF srt, of ?f2 ?t1] big by (simp only: if_True)
  also have "\<dots> = [200, 90, 50, 40, 20]"
    by (simp only: cat) simp
  finally have v2: "map ViewCount ?t2 = [200, 90, 50, 40, 20]" .
  have f1: "fetch (the_client net) 1 = Inr qr1"
    using p1(1) by (rule fetch_the_client)
  have f2: "fetch (the_client net) 2 = Inr qr2"
    using p2(1) by (rule fetch_the_client)
  have "Do srt (the_client net) ?s1 2 =
          Some (Returns (leave ((enter ?s1)\<lparr>requests := requests ?s1 @ [2],
                          top5 := merge srt ?f2 (top5 ?s1)\<rparr>), None))"
    using f2 p2(2,3) by (rule Do_last_page)
  then have "Do srt (the_client net) start 1 =
          Some (Returns (leave (leave ((enter ?s1)\<lparr>requests := requests ?s1 @ [2],
                          top5 := merge srt ?f2 (top5 ?s1)\<rparr>)), None))"
    using Do_next_page [OF f1 p1(2,3), of srt start] by simp
  then have "GetTop5Questions srt net = Some (Returns (Inr ?t2))"
    by (simp add: GetTop5Questions_def the_client_def leave_def start_def)
  then show ?thesis using v2 by (intro exI [of _ ?t2] conjI)
qed

theorem two_page_scenario_witness:
  "\<exists>res. GetTop5Questions insertionSort mixed_pages = Some (Returns (Inr res)) \<and>
         map ViewCount res = [200, 90, 50, 40, 20]"
proof -
  let ?qr1 = "\<lparr>Items = map Some [question 10, answered 999, question 50, question 5,
                question 20, answered 70, question 90, question 3, question 40],
              HasMore = True, QuotaMax = 300, QuotaRemaining = 299\<rparr>"
  let ?qr2 = "\<lparr>Items = map Some [answered 500, question 200, question 1],
              HasMore = False, QuotaMax = 300, QuotaRemaining = 299\<rparr>"
  have a: "mixed_pages 1 = Replied \<lparr>StatusCode = 200, Body = JSON ?qr1\<rparr>"
    by (simp add: mixed_pages_def reply_def)
  have b: "mixed_pages 2 = Replied \<lparr>StatusCode = 200, Body = JSON ?qr2\<rparr>"
    by (simp add: mixed_pages_def reply_def)
  show ?thesis
    by (rule two_page_scenario [OF insertionSort_sorts a _ _ _ b])
       (auto simp: question_def answered_def)
qed

text \<open>
  C4. Whatever the sort does within its contract: a \<^verbatim>\<open>*top5\<close> of at most 5 items whose view
  counts never increase is so again after the merge of lines 92-100, hence after any
  number of pages, at every return of \<^verbatim>\<open>Do\<close>, with or without an error; and the result of
  \<^verbatim>\<open>GetTop5Questions\<close> has at most 5 items, sorted by view count in descending order.
\<close>

theorem top5_sorted_and_bounded:
  assumes "sorts_by_views srt"
  shows "(length old \<le> 5 \<and> desc old \<longrightarrow>
            length (merge srt filtered old) \<le> 5 \<and> desc (merge srt filtered old)) \<and>
         (length (top5 s) \<le> 5 \<and> desc (top5 s) \<longrightarrow>
            Do srt c s page = Some (Returns (s', r)) \<longrightarrow>
            length (top5 s') \<le> 5 \<and> desc (top5 s')) \<and>
         (GetTop5Questions srt net = Some (Returns (Inr res)) \<longrightarrow> length res \<le> 5 \<and> desc res)"
proof -
  have step: "length (merge srt f old) \<le> 5 \<and> desc (merge srt f old)"
    if "length old \<le> 5 \<and> desc old" for f old
    using that merge_length [OF assms, of f old] merge_small [of f old srt]
      merge_desc [OF assms, of old f]
    by (cases "length (f @ old) > 5") auto
  have run: "length (top5 s') \<le> 5 \<and> desc (top5 s')"
    if "Do srt c s page = Some (Returns (s', r))" "length (top5 s) \<le> 5 \<and> desc (top5 s)"
    for c s page s' r
    using Do_keeps [of "\<lambda>t. length t \<le> 5 \<and> desc t" srt c s page s' r] step that by blast
  have "length res \<le> 5 \<and> desc res" if "GetTop5Questions srt net = Some (Returns (Inr res))"
    using that run [of "the_client net" start 1 _ None]
    by (auto simp: GetTop5Questions_Inr start_fields)
  then show ?thesis
    using step [of old filtered] run [of c s page s' r] by blast
qed

theorem top5_sorted_and_bounded_witness:
  "sorts_by_views insertionSort \<and>
   length (map question [90, 50, 40, 20, 10]) \<le> 5 \<and> desc (map question [90, 50, 40, 20, 10]) \<and>
   length (merge insertionSort (map question [200, 1]) (map question [90, 50, 40, 20, 10])) \<le> 5 \<and>
   desc (merge insertionSort (map question [200, 1]) (map question [90, 50, 40, 20, 10])) \<and>
   length (top5 start) \<le> 5 \<and> desc (top5 start) \<and>
   Do insertionSort (the_client second_page_fails) start 1 =
     Some (Returns (\<lparr>top5 = map question [90, 50, 40, 20, 10], requests = [1, 2],
                      frames = 0, peak = 2\<rparr>, Some TransportError)) \<and>
   GetTop5Questions insertionSort two_pages =
     Some (Returns (Inr (map question [200, 90, 50, 40, 20]))) \<and>
   length (map question [200, 90, 50, 40, 20]) \<le> 5 \<and> desc (map question [200, 90, 50, 40, 20])"
proof -
  have a: "length (map question [90, 50, 40, 20, 10]) \<le> 5 \<and> desc (map question [90, 50, 40, 20, 10])"
    by (simp add: question_def)
  have b: "GetTop5Questions insertionSort two_pages =
     Some (Returns (Inr (map question [200, 90, 50, 40, 20])))"
    using two_pages_run by (simp add: GetTop5Questions_Inr)
  have c: "length (top5 start) \<le> 5 \<and> desc (top5 start)"
    by (simp add: start_def)
  have d: "length (merge insertionSort (map question [200, 1])
                    (map question [90, 50, 40, 20, 10])) \<le> 5 \<and>
           desc (merge insertionSort (map question [200, 1]) (map question [90, 50, 40, 20, 10]))"
    using a top5_sorted_and_bounded [OF insertionSort_sorts,
        where old = "map question [90, 50, 40, 20, 10]" and filtered = "map question [200, 1]"]
    by blast
  have e: "length (map question [200, 90, 50, 40, 20]) \<le> 5 \<and>
           desc (map question [200, 90, 50, 40, 20])"
    using b top5_sorted_and_bounded [OF insertionSort_sorts,
        where net = two_pages and res = "map question [200, 90, 50, 40, 20]"]
    by blast
  show ?thesis
    using insertionSort_sorts a c d e b second_page_fails_run by blast
qed

text \<open>
  C5. The loop of lines 86-90 keeps exactly the items whose \<^verbatim>\<open>IsAnswered\<close> is false, in
  their order. Whatever the sort does within its contract, a \<^verbatim>\<open>*top5\<close> without answered items
  has none after any number of pages, and no item of the result of \<^verbatim>\<open>GetTop5Questions\<close> is
  answered.
\<close>

theorem only_unanswered_items:
  assumes "sorts_by_views srt"
  shows "(unanswered its [] = Returns kept \<longrightarrow>
            kept = filter (\<lambda>i. \<not> IsAnswered i) (map the its) \<and>
            (\<forall>x. x \<in> set kept \<longleftrightarrow> Some x \<in> set its \<and> \<not> IsAnswered x)) \<and>
         ((\<forall>x\<in>set (top5 s). \<not> IsAnswered x) \<longrightarrow>
            Do srt c s page = Some (Returns (s', r)) \<longrightarrow> (\<forall>x\<in>set (top5 s'). \<not> IsAnswered x)) \<and>
         (GetTop5Questions srt net = Some (Returns (Inr res)) \<longrightarrow> (\<forall>x\<in>set res. \<not> IsAnswered x))"
proof -
  have filt: "kept = filter (\<lambda>i. \<not> IsAnswered i) (map the its) \<and>
      (\<forall>x. x \<in> set kept \<longleftrightarrow> Some x \<in> set its \<and> \<not> IsAnswered x)"
    if k: "unanswered its [] = Returns kept"
  proof -
    note u = unanswered_Returns [OF k]
    have e: "kept = filter (\<lambda>i. \<not> IsAnswered i) (map the its)"
      using u by (simp only: append_Nil)
    show ?thesis
      using e set_kept [of its] u by (simp only: simp_thms)
  qed
  have step: "\<forall>x\<in>set (merge srt f old). \<not> IsAnswered x"
    if "\<forall>x\<in>set f. \<not> IsAnswered x" "\<forall>x\<in>set old. \<not> IsAnswered x" for f old
    using that merge_set [OF assms, of f old] by blast
  have run: "\<forall>x\<in>set (top5 s'). \<not> IsAnswered x"
    if "Do srt c s page = Some (Returns (s', r))" "\<forall>x\<in>set (top5 s). \<not> IsAnswered x"
    for c s page s' r
    using Do_keeps [of "\<lambda>t. \<forall>x\<in>set t. \<not> IsAnswered x" srt c s page s' r] step that by blast
  have "\<forall>x\<in>set res. \<not> IsAnswered x" if "GetTop5Questions srt net = Some (Returns (Inr res))"
    using that run [of "the_client net" start 1 _ None]
    by (auto simp: GetTop5Questions_Inr start_fields)
  then show ?thesis
    using filt run [of c s page s' r] by blast
qed

theorem only_unanswered_items_witness:
  "sorts_by_views insertionSort \<and>
   unanswered (map Some [question 10, answered 999, question 50]) [] =
     Returns [question 10, question 50] \<and>
   GetTop5Questions insertionSort mixed_pages =
     Some (Returns (Inr (map question [200, 90, 50, 40, 20]))) \<and>
   list_all (\<lambda>x. \<not> IsAnswered x) (map question [200, 90, 50, 40, 20])"
proof -
  have a: "unanswered (map Some [question 10, answered 999, question 50]) [] =
     Returns [question 10, question 50]"
    by (simp add: question_def answered_def)
  have b: "GetTop5Questions insertionSort mixed_pages =
     Some (Returns (Inr (map question [200, 90, 50, 40, 20])))"
    using mixed_pages_run by (simp add: GetTop5Questions_Inr)
  have "\<forall>x\<in>set (map question [200, 90, 50, 40, 20]). \<not> IsAnswered x"
    using b only_unanswered_items [OF insertionSort_sorts,
        where net = mixed_pages and res = "map question [200, 90, 50, 40, 20]"]
    by blast
  then have "list_all (\<lambda>x. \<not> IsAnswered x) (map question [200, 90, 50, 40, 20])"
    by (simp only: list_all_iff)
  then show ?thesis using insertionSort_sorts a b by blast
qed

text \<open>
  C6. A run of \<^verbatim>\<open>Do\<close> from page 1 that returns without an error has asked for the pages
  \<open>1, 2, \<dots>, n\<close>, each once and in this order, where \<open>n\<close> is the first page whose \<^verbatim>\<open>has_more\<close>
  is false: the number of fetches is \<open>n\<close>. Conversely, when the pages before \<open>n\<close> decode and
  report \<^verbatim>\<open>has_more\<close> and page \<open>n\<close> decodes and does not, the run does return, without an
  error, after these \<open>n\<close> fetches. When page 1 reports no more pages there is one fetch.
  (A page that decodes is taken to hold no \<^verbatim>\<open>null\<close> item.)
\<close>

theorem fetch_count:
  "(Do srt c start 1 = Some (Returns (s', None)) \<longrightarrow>
      (\<exists>n\<ge>1. requests s' = [1..n] \<and> length (requests s') = nat n \<and>
         (\<forall>p\<in>{1..<n}. \<exists>qr. fetch c p = Inr qr \<and> None \<notin> set (Items qr) \<and> HasMore qr) \<and>
         (\<exists>qr. fetch c n = Inr qr \<and> None \<notin> set (Items qr) \<and> \<not> HasMore qr))) \<and>
   (1 \<le> n \<and>
    (\<forall>p\<in>{1..<n}. \<exists>qr. fetch c p = Inr qr \<and> None \<notin> set (Items qr) \<and> HasMore qr) \<and>
    (\<exists>qr. fetch c n = Inr qr \<and> None \<notin> set (Items qr) \<and> \<not> HasMore qr) \<longrightarrow>
      (\<exists>s. Do srt c start 1 = Some (Returns (s, None)) \<and>
           requests s = [1..n] \<and> length (requests s) = nat n)) \<and>
   (fetch c 1 = Inr qr1 \<and> None \<notin> set (Items qr1) \<and> \<not> HasMore qr1 \<longrightarrow>
      (\<exists>s. Do srt c start 1 = Some (Returns (s, None)) \<and> requests s = [1]))"
proof (intro conjI impI)
  assume run: "Do srt c start 1 = Some (Returns (s', None))"
  from Do_result [of "\<lambda>_. True" srt c start 1 s' None, OF _ run]
  obtain n where n: "1 \<le> n"
    "\<forall>p\<in>{1..<n}. \<exists>qr. fetch c p = Inr qr \<and> None \<notin> set (Items qr) \<and> HasMore qr"
    "\<exists>qr. fetch c n = Inr qr \<and> None \<notin> set (Items qr) \<and> \<not> HasMore qr"
    "requests s' = requests start @ [1..n]"
    by auto
  have r: "requests s' = [1..n]" using n(4) by (simp add: start_fields)
  have "length (requests s') = nat n" using n(1) by (simp add: r)
  then show "\<exists>n\<ge>1. requests s' = [1..n] \<and> length (requests s') = nat n \<and>
         (\<forall>p\<in>{1..<n}. \<exists>qr. fetch c p = Inr qr \<and> None \<notin> set (Items qr) \<and> HasMore qr) \<and>
         (\<exists>qr. fetch c n = Inr qr \<and> None \<notin> set (Items qr) \<and> \<not> HasMore qr)"
    using n(1,2,3) r by blast
next
  assume h: "1 \<le> n \<and>
    (\<forall>p\<in>{1..<n}. \<exists>qr. fetch c p = Inr qr \<and> None \<notin> set (Items qr) \<and> HasMore qr) \<and>
    (\<exists>qr. fetch c n = Inr qr \<and> None \<notin> set (Items qr) \<and> \<not> HasMore qr)"
  then obtain qr where qr: "fetch c n = Inr qr" "None \<notin> set (Items qr)" "\<not> HasMore qr"
    by blast
  from h have le: "1 \<le> n"
    and pre: "\<forall>p\<in>{1..<n}. \<exists>qr. fetch c p = Inr qr \<and> None \<notin> set (Items qr) \<and> HasMore qr"
    by blast+
  from Do_run_ok [of "\<lambda>_. True" srt 1 n c qr start, OF _ le pre qr]
  obtain s where s: "Do srt c start 1 = Some (Returns (s, None))"
    "requests s = requests start @ [1..n]"
    by blast
  have r: "requests s = [1..n]" using s(2) by (simp add: start_fields)
  have "length (requests s) = nat n" using le by (simp add: r)
  then show "\<exists>s. Do srt c start 1 = Some (Returns (s, None)) \<and>
           requests s = [1..n] \<and> length (requests s) = nat n"
    using s(1) r by blast
next
  assume h: "fetch c 1 = Inr qr1 \<and> None \<notin> set (Items qr1) \<and> \<not> HasMore qr1"
  then have qr: "fetch c 1 = Inr qr1" "None \<notin> set (Items qr1)" "\<not> HasMore qr1"
    by blast+
  show "\<exists>s. Do srt c start 1 = Some (Returns (s, None)) \<and> requests s = [1]"
    using Do_last_page [OF qr, of srt start] by (simp add: start_fields leave_def enter_def)
qed

theorem fetch_count_witness:
  "(\<exists>s. Do insertionSort (the_client two_pages) start 1 = Some (Returns (s, None)) \<and>
        requests s = [1..2] \<and> length (requests s) = nat 2) \<and>
   (\<exists>s. Do insertionSort (the_client single_page) start 1 = Some (Returns (s, None)) \<and>
        requests s = [1])"
proof -
  have a: "\<forall>p\<in>{1..<2::int}. \<exists>qr. fetch (the_client two_pages) p = Inr qr \<and>
             None \<notin> set (Items qr) \<and> HasMore qr"
  proof
    fix p :: int assume "p \<in> {1..<2}"
    then have "p = 1" by simp
    then show "\<exists>qr. fetch (the_client two_pages) p = Inr qr \<and>
             None \<notin> set (Items qr) \<and> HasMore qr"
      by (simp add: fetch_def the_client_def NewClient_def two_pages_def reply_def)
  qed
  have b: "\<exists>qr. fetch (the_client two_pages) 2 = Inr qr \<and> None \<notin> set (Items qr) \<and> \<not> HasMore qr"
    by (simp add: fetch_def the_client_def NewClient_def two_pages_def reply_def)
  have c: "fetch (the_client single_page) 1 =
             Inr \<lparr>Items = map Some (map question [1, 2, 3]), HasMore = False,
                  QuotaMax = 300, QuotaRemaining = 299\<rparr>"
    by (simp add: fetch_def the_client_def NewClient_def single_page_def reply_def)
  have "\<exists>s. Do insertionSort (the_client two_pages) start 1 = Some (Returns (s, None)) \<and>
        requests s = [1..2] \<and> length (requests s) = nat 2"
    using a b fetch_count [where n = 2 and c = "the_client two_pages" and srt = insertionSort]
    by simp
  moreover have "\<exists>s. Do insertionSort (the_client single_page) start 1 =
        Some (Returns (s, None)) \<and> requests s = [1]"
    using c fetch_count [where c = "the_client single_page" and srt = insertionSort
        and ?qr1.0 = "\<lparr>Items = map Some (map question [1, 2, 3]), HasMore = False,
                  QuotaMax = 300, QuotaRemaining = 299\<rparr>"]
    by simp
  ultimately show ?thesis by blast
qed

text \<open>
  C7. When the pages before \<open>n\<close> decode and report \<^verbatim>\<open>has_more\<close> and the fetch of page \<open>n\<close>
  fails, with the transport error or with one of the decode errors, the run stops there:
  pages \<open>1, \<dots>, n\<close> have been asked for once each, none after \<open>n\<close> and none twice, and
  \<^verbatim>\<open>GetTop5Questions\<close> returns that error and no result. The state of \<^verbatim>\<open>Do\<close> still holds the
  \<^verbatim>\<open>*top5\<close> of the earlier pages; \<^verbatim>\<open>GetTop5Questions\<close> drops it (line 141). Whatever error
  \<^verbatim>\<open>Do\<close> returns is the result of \<^verbatim>\<open>GetTop5Questions\<close>.
\<close>

theorem error_is_fatal:
  assumes "1 \<le> n"
    and "\<forall>p\<in>{1..<n}. \<exists>qr. fetch (the_client net) p = Inr qr \<and> None \<notin> set (Items qr) \<and> HasMore qr"
    and "fetch (the_client net) n = Inl e"
  shows "GetTop5Questions srt net = Some (Returns (Inl e)) \<and>
         (\<exists>s. Do srt (the_client net) start 1 = Some (Returns (s, Some e)) \<and>
              requests s = [1..n]) \<and>
         (\<forall>s0 e0. Do srt (the_client net) start 1 = Some (Returns (s0, Some e0)) \<longrightarrow>
              GetTop5Questions srt net = Some (Returns (Inl e0)))"
proof -
  from Do_run_error [of "\<lambda>_. True" srt 1 n "the_client net" e start, OF _ assms]
  obtain s where s: "Do srt (the_client net) start 1 = Some (Returns (s, Some e))"
    "requests s = requests start @ [1..n]"
    by blast
  have "requests s = [1..n]" using s(2) by (simp add: start_fields)
  moreover have "GetTop5Questions srt net = Some (Returns (Inl e0))"
    if "Do srt (the_client net) start 1 = Some (Returns (s0, Some e0))" for s0 e0
    using that by (auto simp: GetTop5Questions_Inl)
  ultimately show ?thesis using s(1) by blast
qed

theorem error_is_fatal_witness:
  "GetTop5Questions insertionSort second_page_fails = Some (Returns (Inl TransportError)) \<and>
   (\<exists>s. Do insertionSort (the_client second_page_fails) start 1 =
          Some (Returns (s, Some TransportError)) \<and> requests s = [1..2]) \<and>
   Do insertionSort (the_client second_page_fails) start 1 =
     Some (Returns (\<lparr>top5 = map question [90, 50, 40, 20, 10], requests = [1, 2],
                      frames = 0, peak = 2\<rparr>, Some TransportError))"
proof -
  have a: "\<forall>p\<in>{1..<2::int}. \<exists>qr. fetch (the_client second_page_fails) p = Inr qr \<and>
             None \<notin> set (Items qr) \<and> HasMore qr"
  proof
    fix p :: int assume "p \<in> {1..<2}"
    then have "p = 1" by simp
    then show "\<exists>qr. fetch (the_client second_page_fails) p = Inr qr \<and>
             None \<notin> set (Items qr) \<and> HasMore qr"
      by (simp add: fetch_def the_client_def NewClient_def second_page_fails_def reply_def)
  qed
  have b: "fetch (the_client second_page_fails) 2 = Inl TransportError"
    by (simp add: fetch_def the_client_def NewClient_def second_page_fails_def)
  show ?thesis
    using error_is_fatal [of 2 second_page_fails TransportError insertionSort, OF _ a b]
      second_page_fails_run
    by simp
qed

text \<open>
  C8. The specification has a response with a status outside 2xx surface as a transport
  error. The program does not: a response with status 400 whose body decodes is a page
  like any other (here an empty one, and the run succeeds with an empty result), and a
  response with status 503 whose body is not gzip gives the decode error of line 74.
\<close>

theorem non_2xx_is_not_a_transport_error:
  "bad_request 1 = Replied \<lparr>StatusCode = 400,
      Body = JSON \<lparr>Items = [], HasMore = False, QuotaMax = 0, QuotaRemaining = 0\<rparr>\<rparr> \<and>
   fetch (the_client bad_request) 1 =
     Inr \<lparr>Items = [], HasMore = False, QuotaMax = 0, QuotaRemaining = 0\<rparr> \<and>
   GetTop5Questions insertionSort bad_request = Some (Returns (Inr [])) \<and>
   unavailable 1 = Replied \<lparr>StatusCode = 503, Body = NotGzip\<rparr> \<and>
   GetTop5Questions insertionSort unavailable = Some (Returns (Inl GzipError))"
proof -
  have "GetTop5Questions insertionSort bad_request = Some (Returns (Inr []))"
    by code_simp
  moreover have "GetTop5Questions insertionSort unavailable = Some (Returns (Inl GzipError))"
    by code_simp
  ultimately show ?thesis
    by (simp add: bad_request_def unavailable_def fetch_def the_client_def NewClient_def)
qed

text \<open>
  C8, as the program has it. The transport error is returned exactly when the round trip
  itself fails. A response is decoded whatever its status: the result of the fetch is
  decided by the body alone, a decode error when the body is not gzip or not JSON, the
  page otherwise, and it is the same for any other status code. When the fetch fails,
  \<^verbatim>\<open>Do\<close> returns the error after the one request for that page: there is no retry.
\<close>

theorem status_is_never_read:
  "(fetch c page = Inl TransportError \<longleftrightarrow> client c page = Failed) \<and>
   (client c page = Replied resp \<longrightarrow>
      fetch c page = (case Body resp of
                        NotGzip \<Rightarrow> Inl GzipError
                      | NotJSON \<Rightarrow> Inl JSONError
                      | JSON qr \<Rightarrow> Inr qr)) \<and>
   (client c page = Replied resp \<and> client c' page = Replied (resp\<lparr>StatusCode := st\<rparr>) \<longrightarrow>
      fetch c' page = fetch c page) \<and>
   (fetch c page = Inl e \<longrightarrow>
      (\<exists>s'. Do srt c s page = Some (Returns (s', Some e)) \<and>
            requests s' = requests s @ [page] \<and> top5 s' = top5 s))"
proof (intro conjI impI)
  show "fetch c page = Inl TransportError \<longleftrightarrow> client c page = Failed"
    by (simp add: fetch_def split: round_trip.splits body.splits)
next
  assume "client c page = Replied resp"
  then show "fetch c page = (case Body resp of
                        NotGzip \<Rightarrow> Inl GzipError
                      | NotJSON \<Rightarrow> Inl JSONError
                      | JSON qr \<Rightarrow> Inr qr)"
    by (simp add: fetch_def)
next
  assume "client c page = Replied resp \<and> client c' page = Replied (resp\<lparr>StatusCode := st\<rparr>)"
  then show "fetch c' page = fetch c page"
    by (simp add: fetch_def)
next
  assume "fetch c page = Inl e"
  then show "\<exists>s'. Do srt c s page = Some (Returns (s', Some e)) \<and>
            requests s' = requests s @ [page] \<and> top5 s' = top5 s"
    using Do_fetch_error [of c page e srt s] by (simp add: leave_def enter_def)
qed

theorem status_is_never_read_witness:
  "client (the_client unavailable) 1 = Replied \<lparr>StatusCode = 503, Body = NotGzip\<rparr> \<and>
   fetch (the_client unavailable) 1 = Inl GzipError \<and>
   client (the_client bad_request) 1 =
     Replied (\<lparr>StatusCode = 200,
        Body = JSON \<lparr>Items = [], HasMore = False, QuotaMax = 0, QuotaRemaining = 0\<rparr>\<rparr>
          \<lparr>StatusCode := 400\<rparr>) \<and>
   fetch (the_client bad_request) 1 =
     fetch (the_client (\<lambda>p. Replied \<lparr>StatusCode = 200,
        Body = JSON \<lparr>Items = [], HasMore = False, QuotaMax = 0, QuotaRemaining = 0\<rparr>\<rparr>)) 1 \<and>
   (\<exists>s'. Do insertionSort (the_client unavailable) start 1 = Some (Returns (s', Some GzipError)) \<and>
         requests s' = [1] \<and> top5 s' = [])"
proof -
  have a: "client (the_client unavailable) 1 = Replied \<lparr>StatusCode = 503, Body = NotGzip\<rparr>"
    by (simp add: the_client_def NewClient_def unavailable_def)
  have b: "client (the_client bad_request) 1 =
     Replied (\<lparr>StatusCode = 200,
        Body = JSON \<lparr>Items = [], HasMore = False, QuotaMax = 0, QuotaRemaining = 0\<rparr>\<rparr>
          \<lparr>StatusCode := 400\<rparr>)"
    by (simp add: the_client_def NewClient_def bad_request_def)
  have c: "client (the_client (\<lambda>p. Replied \<lparr>StatusCode = 200,
        Body = JSON \<lparr>Items = [], HasMore = False, QuotaMax = 0, QuotaRemaining = 0\<rparr>\<rparr>)) 1 =
      Replied \<lparr>StatusCode = 200,
        Body = JSON \<lparr>Items = [], HasMore = False, QuotaMax = 0, QuotaRemaining = 0\<rparr>\<rparr>"
    by (simp add: the_client_def NewClient_def)
  have d: "fetch (the_client unavailable) 1 = Inl GzipError"
    using a status_is_never_read [where c = "the_client unavailable" and page = 1
        and resp = "\<lparr>StatusCode = 503, Body = NotGzip\<rparr>"]
    by simp
  have e: "fetch (the_client bad_request) 1 =
     fetch (the_client (\<lambda>p. Replied \<lparr>StatusCode = 200,
        Body = JSON \<lparr>Items = [], HasMore = False, QuotaMax = 0, QuotaRemaining = 0\<rparr>\<rparr>)) 1"
    using b c status_is_never_read [where c' = "the_client bad_request" and page = 1
        and c = "the_client (\<lambda>p. Replied \<lparr>StatusCode = 200,
          Body = JSON \<lparr>Items = [], HasMore = False, QuotaMax = 0, QuotaRemaining = 0\<rparr>\<rparr>)"
        and resp = "\<lparr>StatusCode = 200,
          Body = JSON \<lparr>Items = [], HasMore = False, QuotaMax = 0, QuotaRemaining = 0\<rparr>\<rparr>"
        and st = 400]
    by blast
  have f: "\<exists>s'. Do insertionSort (the_client unavailable) start 1 =
         Some (Returns (s', Some GzipError)) \<and> requests s' = [1] \<and> top5 s' = []"
    using d status_is_never_read [where c = "the_client unavailable" and page = 1
        and e = GzipError and srt = insertionSort and s = start]
    by (simp add: start_fields)
  show ?thesis using a b d e f by blast
qed

text \<open>
  C9. The specification has the pagination as a loop whose call stack does not grow with
  the number of pages. The program recurses (line 103): one activation of \<^verbatim>\<open>Do\<close> is on
  the stack for the run of one page, two for the run of two pages.
\<close>

theorem one_frame_for_each_page:
  "map_option (map_outcome (peak \<circ> fst)) (Do insertionSort (the_client single_page) start 1) =
     Some (Returns 1) \<and>
   map_option (map_outcome (peak \<circ> fst)) (Do insertionSort (the_client two_pages) start 1) =
     Some (Returns 2)"
  by code_simp

text \<open>
  C9, as the program has it. In a run over \<open>n\<close> pages that returns without an error the
  activations of \<^verbatim>\<open>Do\<close> are nested \<open>n\<close> deep: the call stack grows by one activation for
  each page, and all of them are left when the run returns.
\<close>

theorem stack_depth_is_page_count:
  assumes "1 \<le> n"
    and "\<forall>p\<in>{1..<n}. \<exists>qr. fetch c p = Inr qr \<and> None \<notin> set (Items qr) \<and> HasMore qr"
    and "fetch c n = Inr qr" "None \<notin> set (Items qr)" "\<not> HasMore qr"
  shows "\<exists>s'. Do srt c start 1 = Some (Returns (s', None)) \<and> peak s' = nat n \<and> frames s' = 0"
proof -
  from Do_run_ok [of "\<lambda>_. True" srt 1 n c qr start, OF _ assms]
  obtain s' where s: "Do srt c start 1 = Some (Returns (s', None))"
    "frames s' = frames start" "peak s' = max (peak start) (frames start + nat (n - 1) + 1)"
    by blast
  have "peak s' = nat n" using s(3) assms(1) by (simp add: start_fields)
  then show ?thesis using s(1,2) by (auto simp: start_fields)
qed

theorem stack_depth_is_page_count_witness:
  "\<exists>s'. Do insertionSort (the_client forty_pages) start 1 = Some (Returns (s', None)) \<and>
        peak s' = nat 40 \<and> frames s' = 0"
proof -
  have a: "\<forall>p\<in>{1..<40::int}. \<exists>qr. fetch (the_client forty_pages) p = Inr qr \<and>
             None \<notin> set (Items qr) \<and> HasMore qr"
    by (simp add: fetch_def the_client_def NewClient_def forty_pages_def reply_def)
  have b: "fetch (the_client forty_pages) 40 =
             Inr \<lparr>Items = map Some [question 40], HasMore = False,
                  QuotaMax = 300, QuotaRemaining = 299\<rparr>"
    by (simp add: fetch_def the_client_def NewClient_def forty_pages_def reply_def)
  show ?thesis
    by (rule stack_depth_is_page_count [OF _ a b]) simp_all
qed

text \<open>
  C10. \<^verbatim>\<open>Do\<close> waits for the rate limiter with \<^verbatim>\<open>context.Background()\<close>, made anew in each
  call (line 54). That context is never cancelled, so the wait returns no error, and no
  run of \<^verbatim>\<open>Do\<close> or of \<^verbatim>\<open>GetTop5Questions\<close> returns the error of a cancelled wait.
\<close>

theorem rate_limit_never_cancelled:
  "Wait (Ratelimiter c) Background = None \<and>
   Do srt c s page \<noteq> Some (Returns (s', Some RateLimitCancelled)) \<and>
   GetTop5Questions srt net \<noteq> Some (Returns (Inl RateLimitCancelled))"
proof -
  have run: "Do srt c s page \<noteq> Some (Returns (s', Some RateLimitCancelled))" for c s page s'
  proof
    assume "Do srt c s page = Some (Returns (s', Some RateLimitCancelled))"
    from Do_result [of "\<lambda>_. True" srt c s page s' "Some RateLimitCancelled", OF _ this]
    obtain n where "fetch c n = Inl RateLimitCancelled" by auto
    then show False using fetch_not_cancelled by blast
  qed
  have "GetTop5Questions srt net \<noteq> Some (Returns (Inl RateLimitCancelled))"
    using run [of "the_client net" start 1] by (simp add: GetTop5Questions_Inl)
  then show ?thesis using run [of c s page s'] by (simp add: Wait_def)
qed

end
